theory Spec2Isabelle
  imports Main "HOL-Library.AList"
begin

section \<open>Data model of \<open>src/sync.js\<close>\<close>

text \<open>
  A live bookmark entity as \<open>convertToServerFormat\<close> reads it. The fields \<open>tags\<close> and
  \<open>excerpt\<close> may be missing (\<open>undefined\<close>), which the source replaces by \<open>[]\<close> and \<open>''\<close>.
\<close>

record bookmark =
  bm_id :: string
  bm_url :: string
  bm_title :: string
  bm_tags :: "string list option"
  bm_excerpt :: "string option"
  bm_createdAt :: int
  bm_updatedAt :: int

text \<open>The object literal returned by \<open>convertToServerFormat\<close>.\<close>

record snapshot =
  snap_id :: string
  snap_url :: string
  snap_title :: string
  snap_tags :: "string list"
  snap_excerpt :: string
  snap_createdAt :: int
  snap_updatedAt :: int
  deleted :: bool

text \<open>The object \<open>{timestamp, change}\<close> built by \<open>addChange\<close> for every bookmark.\<close>

record change_entry =
  timestamp :: int
  change :: snapshot

text \<open>
  A \<open>Map\<close> and a plain object with string keys, both as association lists of their own
  entries in the order JavaScript lists them. They differ in how an entry is written:
  \<open>assignAll\<close> is \<open>Map.set\<close>, \<open>objectAssign\<close> is \<open>object[key] = value\<close> (see there).
\<close>

type_synonym changes = "(string \<times> change_entry) list"

text \<open>The argument of \<open>recordBookmarkChange\<close> and \<open>addChange\<close>: one bookmark or an array.\<close>

datatype bookmarks_arg = Single bookmark | Array "bookmark list"

text \<open>The object \<open>{lastSync, lastSyncResult}\<close> returned by a successful pass.\<close>

record sync_result =
  lastSync :: int
  lastSyncResult :: string

text \<open>
  The errors a call can end with: the two \<open>throw new Error(...)\<close> of the source, and an
  exception raised by the storage collaborator.
\<close>

datatype error = AlreadySyncing | NetworkUnavailable | StorageFailure

text \<open>Calls that leave the module: the storage manager, the clock and \<open>navigator.onLine\<close>.\<close>

datatype call =
    StorageGet string
  | StorageSet string
  | StorageRemove string
  | GetBookmarks
  | DateNow
  | NavigatorOnLine

text \<open>
  The environment answers the \<open>n\<close>-th outside call of a run: whether a storage call
  throws, what \<open>Date.now()\<close> returns, what \<open>navigator.onLine\<close> is.
\<close>

record env =
  fault :: "nat \<Rightarrow> bool"
  clock :: "nat \<Rightarrow> int"
  onLine :: "nat \<Rightarrow> bool"

text \<open>
  The state: the two fields of \<open>SyncManager\<close> and \<open>LocalChangeManager\<close> that change
  (\<open>isSyncing\<close>, \<open>tempQueue\<close>), the two storage keys the module uses
  (\<open>lastSyncVersion\<close>, \<open>pendingChanges\<close>; \<open>None\<close> is an absent key), the bookmark
  collection of the storage manager, and the outside calls made so far.
\<close>

record sys =
  isSyncing :: bool
  tempQueue :: changes
  lastSyncVersion :: "int option"
  pendingChanges :: "changes option"
  localBookmarks :: "bookmark list"
  calls :: "call list"

section \<open>Sequencing of fallible steps\<close>

text \<open>
  Every \<open>async\<close> method returns its outcome (\<open>Inl\<close> the thrown error) and the state it
  leaves. \<open>andThen\<close> is \<open>await\<close> followed by the rest of the body: an error skips the rest.
\<close>

type_synonym 'a outcome = "(error + 'a) \<times> sys"

definition andThen :: "'a outcome \<Rightarrow> ('a \<Rightarrow> sys \<Rightarrow> 'b outcome) \<Rightarrow> 'b outcome" where
  "andThen m f = (case m of (Inl e, w) \<Rightarrow> (Inl e, w) | (Inr a, w) \<Rightarrow> f a w)"

section \<open>The collaborators\<close>

text \<open>
  Modelled from the spec: \<open>LocalStorageMgr\<close> is not part of \<open>src/sync.js\<close>. The spec
  gives it as a key-value store with \<open>get(key) -> value|undefined\<close>, \<open>set(key, value)\<close>,
  \<open>remove(keys)\<close> and \<open>getAllBookmarks()\<close>, whose failures propagate to the caller.
  A call that throws leaves the store as it was.
\<close>

definition outside :: "env \<Rightarrow> call \<Rightarrow> sys \<Rightarrow> bool \<times> sys" where
  "outside env c w = (fault env (length (calls w)), w\<lparr>calls := calls w @ [c]\<rparr>)"

definition storage_get_version :: "env \<Rightarrow> sys \<Rightarrow> (int option) outcome" where
  "storage_get_version env w =
     (case outside env (StorageGet ''lastSyncVersion'') w of
        (thrown, w') \<Rightarrow> if thrown then (Inl StorageFailure, w') else (Inr (lastSyncVersion w'), w'))"

definition storage_set_version :: "env \<Rightarrow> int \<Rightarrow> sys \<Rightarrow> unit outcome" where
  "storage_set_version env v w =
     (case outside env (StorageSet ''lastSyncVersion'') w of
        (thrown, w') \<Rightarrow>
          if thrown then (Inl StorageFailure, w') else (Inr (), w'\<lparr>lastSyncVersion := Some v\<rparr>))"

definition storage_remove_version :: "env \<Rightarrow> sys \<Rightarrow> unit outcome" where
  "storage_remove_version env w =
     (case outside env (StorageRemove ''lastSyncVersion'') w of
        (thrown, w') \<Rightarrow>
          if thrown then (Inl StorageFailure, w') else (Inr (), w'\<lparr>lastSyncVersion := None\<rparr>))"

definition storage_get_pending :: "env \<Rightarrow> sys \<Rightarrow> (changes option) outcome" where
  "storage_get_pending env w =
     (case outside env (StorageGet ''pendingChanges'') w of
        (thrown, w') \<Rightarrow> if thrown then (Inl StorageFailure, w') else (Inr (pendingChanges w'), w'))"

definition storage_set_pending :: "env \<Rightarrow> changes \<Rightarrow> sys \<Rightarrow> unit outcome" where
  "storage_set_pending env cs w =
     (case outside env (StorageSet ''pendingChanges'') w of
        (thrown, w') \<Rightarrow>
          if thrown then (Inl StorageFailure, w') else (Inr (), w'\<lparr>pendingChanges := Some cs\<rparr>))"

definition storage_getBookmarks :: "env \<Rightarrow> sys \<Rightarrow> (bookmark list) outcome" where
  "storage_getBookmarks env w =
     (case outside env GetBookmarks w of
        (thrown, w') \<Rightarrow> if thrown then (Inl StorageFailure, w') else (Inr (localBookmarks w'), w'))"

text \<open>\<open>Date.now()\<close> and \<open>navigator.onLine\<close> never throw.\<close>

definition dateNow :: "env \<Rightarrow> sys \<Rightarrow> int \<times> sys" where
  "dateNow env w = (clock env (length (calls w)), w\<lparr>calls := calls w @ [DateNow]\<rparr>)"

definition navigatorOnLine :: "env \<Rightarrow> sys \<Rightarrow> bool \<times> sys" where
  "navigatorOnLine env w = (onLine env (length (calls w)), w\<lparr>calls := calls w @ [NavigatorOnLine]\<rparr>)"

section \<open>\<open>SyncManager\<close>: version, conversion, connectivity\<close>

text \<open>\<open>await LocalStorageMgr.get('lastSyncVersion') || 0\<close>: absent and \<open>0\<close> both give \<open>0\<close>.\<close>

definition getSyncVersion :: "env \<Rightarrow> sys \<Rightarrow> int outcome" where
  "getSyncVersion env w =
     andThen (storage_get_version env w)
       (\<lambda>v w'. (Inr (case v of None \<Rightarrow> 0 | Some n \<Rightarrow> n), w'))"

definition resetSyncCache :: "env \<Rightarrow> sys \<Rightarrow> unit outcome" where
  "resetSyncCache env w = storage_remove_version env w"

text \<open>
  \<open>convertToServerFormat(bookmark)\<close> has one parameter; \<open>deleted\<close> is the literal \<open>false\<close>.
\<close>

definition convertToServerFormat :: "bookmark \<Rightarrow> snapshot" where
  "convertToServerFormat b =
     \<lparr> snap_id = bm_id b,
       snap_url = bm_url b,
       snap_title = bm_title b,
       snap_tags = (case bm_tags b of None \<Rightarrow> [] | Some ts \<Rightarrow> ts),
       snap_excerpt = (case bm_excerpt b of None \<Rightarrow> '''' | Some e \<Rightarrow> e),
       snap_createdAt = bm_createdAt b,
       snap_updatedAt = bm_updatedAt b,
       deleted = False \<rparr>"

definition canSync :: "env \<Rightarrow> sys \<Rightarrow> bool \<times> sys" where
  "canSync env w =
     (case navigatorOnLine env w of (online, w') \<Rightarrow> if \<not> online then (False, w') else (True, w'))"

section \<open>\<open>LocalChangeManager\<close>\<close>

text \<open>\<open>Array.isArray(bookmarks) ? bookmarks : [bookmarks]\<close>\<close>

fun toArray :: "bookmarks_arg \<Rightarrow> bookmark list" where
  "toArray (Single b) = [b]"
| "toArray (Array bs) = bs"

text \<open>\<open>await LocalStorageMgr.get(this.STORAGE_KEY) || {}\<close>\<close>

definition getPendingChanges :: "env \<Rightarrow> sys \<Rightarrow> changes outcome" where
  "getPendingChanges env w =
     andThen (storage_get_pending env w)
       (\<lambda>v w'. (Inr (case v of None \<Rightarrow> [] | Some cs \<Rightarrow> cs), w'))"

text \<open>
  \<open>bookmarkArray.map(bookmark => ...)\<close>: one entry \<open>[bookmark.url, {timestamp, change}]\<close>
  per bookmark, each with its own \<open>Date.now()\<close>. The call passes \<open>isDeleted\<close> as a second
  argument to \<open>convertToServerFormat\<close>, which has no second parameter.
\<close>

fun changeEntries :: "env \<Rightarrow> bool \<Rightarrow> bookmark list \<Rightarrow> sys \<Rightarrow> changes \<times> sys" where
  "changeEntries env isDeleted [] w = ([], w)"
| "changeEntries env isDeleted (b # bs) w =
     (case dateNow env w of
        (t, w1) \<Rightarrow>
          (case changeEntries env isDeleted bs w1 of
             (es, w2) \<Rightarrow>
               ((bm_url b, \<lparr>timestamp = t, change = convertToServerFormat b\<rparr>) # es, w2)))"

text \<open>
  \<open>changeEntries.forEach(([url, change]) => { this.tempQueue.set(url, change) })\<close>:
  \<open>Map.set\<close> overwrites the value of a key that is present, in place, and appends a new
  key, whatever the key is.
\<close>

fun assignAll :: "('k \<times> 'v) list \<Rightarrow> ('k \<times> 'v) list \<Rightarrow> ('k \<times> 'v) list" where
  "assignAll target [] = target"
| "assignAll target ((u, c) # es) = assignAll (AList.update u c target) es"

text \<open>
  \<open>changes[url] = change\<close> on a plain object (one read from the store, or \<open>{}\<close>), whose
  prototype is \<open>Object.prototype\<close>:
  \<^item> a key that is an own property keeps its place and gets the new value;
  \<^item> otherwise the key \<open>__proto__\<close> reaches the setter of \<open>Object.prototype\<close>, which makes
    the value (an object) the prototype and adds no own property, so that nothing is
    stored for it;
  \<^item> otherwise a key that is an array index (a decimal numeral without leading zeros, below
    \<open>2^32 - 1\<close>) is listed among the array indices, which come first in ascending order;
  \<^item> any other new key is listed last.
\<close>

definition isDigit :: "char \<Rightarrow> bool" where
  "isDigit c = (c \<in> set ''0123456789'')"

definition decimal :: "string \<Rightarrow> nat" where
  "decimal s = foldl (\<lambda>n c. 10 * n + (of_char c - 48)) 0 s"

definition isArrayIndex :: "string \<Rightarrow> bool" where
  "isArrayIndex s =
     (case s of
        [] \<Rightarrow> False
      | c # cs \<Rightarrow>
          list_all isDigit s \<and> (if c = CHR ''0'' then cs = [] else True) \<and>
          decimal s < 4294967295)"

fun insertIndexKey :: "string \<Rightarrow> 'v \<Rightarrow> (string \<times> 'v) list \<Rightarrow> (string \<times> 'v) list" where
  "insertIndexKey u c [] = [(u, c)]"
| "insertIndexKey u c (p # ps) =
     (if isArrayIndex (fst p) \<and> decimal (fst p) < decimal u then p # insertIndexKey u c ps
      else (u, c) # p # ps)"

definition objectAssign :: "string \<Rightarrow> 'v \<Rightarrow> (string \<times> 'v) list \<Rightarrow> (string \<times> 'v) list" where
  "objectAssign u c obj =
     (if u \<in> set (map fst obj) then AList.update u c obj
      else if u = ''__proto__'' then obj
      else if isArrayIndex u then insertIndexKey u c obj
      else obj @ [(u, c)])"

text \<open>\<open>entries.forEach(([url, change]) => { changes[url] = change })\<close>\<close>

fun objectAssignAll :: "(string \<times> 'v) list \<Rightarrow> (string \<times> 'v) list \<Rightarrow> (string \<times> 'v) list" where
  "objectAssignAll obj [] = obj"
| "objectAssignAll obj ((u, c) # es) = objectAssignAll (objectAssign u c obj) es"

definition addChange :: "env \<Rightarrow> bookmarks_arg \<Rightarrow> bool \<Rightarrow> sys \<Rightarrow> unit outcome" where
  "addChange env bookmarks isDeleted w =
     (let bookmarkArray = toArray bookmarks in
      if length bookmarkArray = 0 then (Inr (), w)
      else
        (case changeEntries env isDeleted bookmarkArray w of
           (entries, w1) \<Rightarrow>
             if isSyncing w1 then (Inr (), w1\<lparr>tempQueue := assignAll (tempQueue w1) entries\<rparr>)
             else
               andThen (getPendingChanges env w1)
                 (\<lambda>cs w2. storage_set_pending env (objectAssignAll cs entries) w2)))"

definition removeChange :: "env \<Rightarrow> string \<Rightarrow> sys \<Rightarrow> unit outcome" where
  "removeChange env u w =
     andThen (getPendingChanges env w)
       (\<lambda>cs w1. storage_set_pending env (AList.delete u cs) w1)"

definition clearChanges :: "env \<Rightarrow> sys \<Rightarrow> unit outcome" where
  "clearChanges env w = storage_set_pending env [] w"

text \<open>
  \<open>mergeTempQueueToStorage\<close>: when the queue is not empty, a fresh object receives the
  queue's entries, is stored under \<open>pendingChanges\<close>, and the queue is cleared after that.
\<close>

definition mergeTempQueueToStorage :: "env \<Rightarrow> sys \<Rightarrow> unit outcome" where
  "mergeTempQueueToStorage env w =
     (if length (tempQueue w) > 0 then
        andThen (storage_set_pending env (objectAssignAll [] (tempQueue w)) w)
          (\<lambda>_ w1. (Inr (), w1\<lparr>tempQueue := []\<rparr>))
      else (Inr (), w))"

definition getChangeCount :: "env \<Rightarrow> sys \<Rightarrow> nat outcome" where
  "getChangeCount env w =
     andThen (getPendingChanges env w) (\<lambda>cs w1. (Inr (length cs), w1))"

text \<open>\<open>LocalChangeManager.cleanup\<close>: \<open>this.tempQueue.clear(); await this.clearChanges()\<close>\<close>

definition changeManager_cleanup :: "env \<Rightarrow> sys \<Rightarrow> unit outcome" where
  "changeManager_cleanup env w = clearChanges env (w\<lparr>tempQueue := []\<rparr>)"

section \<open>\<open>SyncManager\<close>: the two strategies\<close>

text \<open>
  A strategy is its guard, its \<open>try\<close> block and its \<open>finally\<close> block. The \<open>catch\<close> block
  logs and rethrows, so the outcome of \<open>try\<close> is the outcome of the call unless
  \<open>finally\<close> itself throws; then that error is the outcome, and the statements after the
  throwing one in \<open>finally\<close> do not run. The \<open>try\<close> block runs without interruption up
  to \<open>await this.canSync()\<close>, where the call is suspended for the first time and other
  calls can run; \<open>_body\<close> is the block from there on. The calls of \<open>logger\<close> have no
  effect on the state or the control flow and are left out.
\<close>

definition syncChange_body :: "env \<Rightarrow> sys \<Rightarrow> sync_result outcome" where
  "syncChange_body env w =
     (case dateNow env w of
        (t, w2) \<Rightarrow>
          let result = \<lparr>lastSync = t, lastSyncResult = ''success''\<rparr> in
          andThen (getPendingChanges env w2)
            (\<lambda>pending w3.
               let changes = map (\<lambda>item. change (snd item)) pending in
               andThen (getSyncVersion env w3)
                 (\<lambda>lastVersion w4.
                    (case dateNow env w4 of
                       (t', w5) \<Rightarrow>
                         andThen (storage_set_version env t' w5)
                           (\<lambda>_ w6.
                              andThen (clearChanges env w6)
                                (\<lambda>_ w7. (Inr result, w7)))))))"

definition syncChange_try :: "env \<Rightarrow> sys \<Rightarrow> sync_result outcome" where
  "syncChange_try env w =
     (case canSync env w of
        (ok, w1) \<Rightarrow>
          if \<not> ok then (Inl NetworkUnavailable, w1) else syncChange_body env w1)"

definition syncChange_finally :: "env \<Rightarrow> sys \<Rightarrow> unit outcome" where
  "syncChange_finally env w =
     andThen (mergeTempQueueToStorage env w) (\<lambda>_ w1. (Inr (), w1\<lparr>isSyncing := False\<rparr>))"

definition syncChange :: "env \<Rightarrow> sys \<Rightarrow> sync_result outcome" where
  "syncChange env w =
     (if isSyncing w then (Inl AlreadySyncing, w)
      else
        (case syncChange_try env (w\<lparr>isSyncing := True\<rparr>) of
           (r, w1) \<Rightarrow> andThen (syncChange_finally env w1) (\<lambda>_ w2. (r, w2))))"

definition syncAllLocalBookmarks_body :: "env \<Rightarrow> sys \<Rightarrow> sync_result outcome" where
  "syncAllLocalBookmarks_body env w =
     (case dateNow env w of
        (t, w2) \<Rightarrow>
          let result = \<lparr>lastSync = t, lastSyncResult = ''success''\<rparr> in
          andThen (storage_getBookmarks env w2)
            (\<lambda>bookmarks w3.
               let changes = map convertToServerFormat bookmarks in
               andThen (getSyncVersion env w3)
                 (\<lambda>lastVersion w4.
                    (case dateNow env w4 of
                       (t', w5) \<Rightarrow>
                         andThen (storage_set_version env t' w5)
                           (\<lambda>_ w6. (Inr result, w6))))))"

definition syncAllLocalBookmarks_try :: "env \<Rightarrow> sys \<Rightarrow> sync_result outcome" where
  "syncAllLocalBookmarks_try env w =
     (case canSync env w of
        (ok, w1) \<Rightarrow>
          if \<not> ok then (Inl NetworkUnavailable, w1) else syncAllLocalBookmarks_body env w1)"

definition syncAllLocalBookmarks_finally :: "env \<Rightarrow> sys \<Rightarrow> unit outcome" where
  "syncAllLocalBookmarks_finally env w = (Inr (), w\<lparr>isSyncing := False\<rparr>)"

definition syncAllLocalBookmarks :: "env \<Rightarrow> sys \<Rightarrow> sync_result outcome" where
  "syncAllLocalBookmarks env w =
     (if isSyncing w then (Inl AlreadySyncing, w)
      else
        (case syncAllLocalBookmarks_try env (w\<lparr>isSyncing := True\<rparr>) of
           (r, w1) \<Rightarrow> andThen (syncAllLocalBookmarks_finally env w1) (\<lambda>_ w2. (r, w2))))"

section \<open>\<open>SyncManager\<close>: entry points\<close>

definition startSync :: "env \<Rightarrow> sys \<Rightarrow> sync_result outcome" where
  "startSync env w =
     andThen (getSyncVersion env w)
       (\<lambda>lastVersion w1.
          if lastVersion = 0 then syncAllLocalBookmarks env w1 else syncChange env w1)"

definition recordBookmarkChange :: "env \<Rightarrow> bookmarks_arg \<Rightarrow> bool \<Rightarrow> sys \<Rightarrow> unit outcome" where
  "recordBookmarkChange env bookmarks isDeleted w =
     (let bookmarkArray = toArray bookmarks in
      andThen (getSyncVersion env w)
        (\<lambda>lastVersion w1.
           if lastVersion \<noteq> 0 then addChange env (Array bookmarkArray) isDeleted w1
           else (Inr (), w1)))"

definition cleanup :: "env \<Rightarrow> sys \<Rightarrow> unit outcome" where
  "cleanup env w =
     andThen (changeManager_cleanup env w) (\<lambda>_ w1. (Inr (), w1\<lparr>isSyncing := False\<rparr>))"

section \<open>Runs and example values\<close>

text \<open>
  Every call is taken as one step, except a pass: other calls can run while a pass is
  suspended, between the assignment \<open>this.isSyncing = true\<close> and the \<open>finally\<close> block.
\<close>

text \<open>The set stored under \<open>pendingChanges\<close>, as \<open>getPendingChanges\<close> reads it.\<close>

definition durable :: "sys \<Rightarrow> changes" where
  "durable w = (case pendingChanges w of None \<Rightarrow> [] | Some cs \<Rightarrow> cs)"

text \<open>A caller's sequence \<open>await addChange(...); await addChange(...); ...\<close>\<close>

fun addChanges :: "env \<Rightarrow> (bookmarks_arg \<times> bool) list \<Rightarrow> sys \<Rightarrow> unit outcome" where
  "addChanges env [] w = (Inr (), w)"
| "addChanges env ((bookmarks, isDeleted) # rest) w =
     andThen (addChange env bookmarks isDeleted w) (\<lambda>_ w1. addChanges env rest w1)"

text \<open>
  The bookmarks a call is given, and all bookmarks a sequence of calls is given, in the
  order of the calls. Both are read off the arguments, not off what \<open>addChange\<close> makes
  of them.
\<close>

definition passed :: "bookmarks_arg \<Rightarrow> bookmark list" where
  "passed a = (case a of Single b \<Rightarrow> [b] | Array bs \<Rightarrow> bs)"

definition mentioned :: "(bookmarks_arg \<times> bool) list \<Rightarrow> bookmark list" where
  "mentioned rs = concat (map (\<lambda>r. passed (fst r)) rs)"

text \<open>
  A pass during which one call of \<open>recordBookmarkChange\<close> arrives: the pass is admitted
  and runs up to \<open>await this.canSync()\<close>, the recording call runs, the pass goes on with
  the rest of its \<open>try\<close> block and its \<open>finally\<close> block. The recording call is taken as
  one step; its outcome goes to its own caller.
\<close>

definition syncAllLocalBookmarks_during ::
    "env \<Rightarrow> bookmarks_arg \<Rightarrow> bool \<Rightarrow> sys \<Rightarrow> sync_result outcome" where
  "syncAllLocalBookmarks_during env bookmarks isDeleted w =
     (if isSyncing w then (Inl AlreadySyncing, w)
      else
        (case canSync env (w\<lparr>isSyncing := True\<rparr>) of
           (ok, w1) \<Rightarrow>
             (case recordBookmarkChange env bookmarks isDeleted w1 of
                (_, w2) \<Rightarrow>
                  (case (if \<not> ok then (Inl NetworkUnavailable, w2)
                         else syncAllLocalBookmarks_body env w2) of
                     (r, w3) \<Rightarrow>
                       andThen (syncAllLocalBookmarks_finally env w3) (\<lambda>_ w4. (r, w4))))))"

definition syncChange_during ::
    "env \<Rightarrow> bookmarks_arg \<Rightarrow> bool \<Rightarrow> sys \<Rightarrow> sync_result outcome" where
  "syncChange_during env bookmarks isDeleted w =
     (if isSyncing w then (Inl AlreadySyncing, w)
      else
        (case canSync env (w\<lparr>isSyncing := True\<rparr>) of
           (ok, w1) \<Rightarrow>
             (case recordBookmarkChange env bookmarks isDeleted w1 of
                (_, w2) \<Rightarrow>
                  (case (if \<not> ok then (Inl NetworkUnavailable, w2)
                         else syncChange_body env w2) of
                     (r, w3) \<Rightarrow>
                       andThen (syncChange_finally env w3) (\<lambda>_ w4. (r, w4))))))"

text \<open>
  Two bookmarks, a later version of the first, a bookmark whose URL is the string
  \<open>__proto__\<close>, two environments and four states.
\<close>

definition bm_a :: bookmark where
  "bm_a = \<lparr>bm_id = ''a1'', bm_url = ''https://example.com/'', bm_title = ''Example'',
           bm_tags = Some [''ref''], bm_excerpt = None, bm_createdAt = 1000, bm_updatedAt = 1000\<rparr>"

definition bm_a2 :: bookmark where
  "bm_a2 = bm_a\<lparr>bm_title := ''Example, renamed'', bm_updatedAt := 2000\<rparr>"

definition bm_b :: bookmark where
  "bm_b = \<lparr>bm_id = ''b1'', bm_url = ''https://isabelle.in.tum.de/'', bm_title = ''Isabelle'',
           bm_tags = None, bm_excerpt = Some ''prover'', bm_createdAt = 1500, bm_updatedAt = 1500\<rparr>"

definition bm_proto :: bookmark where
  "bm_proto = \<lparr>bm_id = ''p1'', bm_url = ''__proto__'', bm_title = ''Proto'',
               bm_tags = None, bm_excerpt = None, bm_createdAt = 1700, bm_updatedAt = 1700\<rparr>"

definition env_up :: env where
  "env_up = \<lparr>fault = (\<lambda>n. False), clock = (\<lambda>n. 5000 + int n), onLine = (\<lambda>n. True)\<rparr>"

definition env_offline :: env where
  "env_offline = \<lparr>fault = (\<lambda>n. False), clock = (\<lambda>n. 5000 + int n), onLine = (\<lambda>n. False)\<rparr>"

definition sys_fresh :: sys where
  "sys_fresh = \<lparr>isSyncing = False, tempQueue = [], lastSyncVersion = None,
                pendingChanges = None, localBookmarks = [bm_a, bm_b], calls = []\<rparr>"

definition sys_synced :: sys where
  "sys_synced = sys_fresh\<lparr>lastSyncVersion := Some 4000\<rparr>"

definition sys_pending :: sys where
  "sys_pending = sys_synced\<lparr>pendingChanges :=
      Some [(''https://isabelle.in.tum.de/'',
             \<lparr>timestamp = 4500, change = convertToServerFormat bm_b\<rparr>)]\<rparr>"

definition sys_busy :: sys where
  "sys_busy = sys_pending\<lparr>isSyncing := True\<rparr>"

section \<open>Unfolding and evaluation\<close>

lemmas storage_defs = outside_def storage_get_version_def storage_set_version_def
  storage_remove_version_def storage_get_pending_def storage_set_pending_def
  storage_getBookmarks_def dateNow_def navigatorOnLine_def andThen_def

lemmas sync_defs = syncChange_def syncChange_try_def syncChange_body_def syncChange_finally_def
  syncAllLocalBookmarks_def syncAllLocalBookmarks_try_def syncAllLocalBookmarks_body_def
  syncAllLocalBookmarks_finally_def startSync_def getSyncVersion_def getPendingChanges_def
  clearChanges_def mergeTempQueueToStorage_def canSync_def

lemmas record_defs = recordBookmarkChange_def addChange_def convertToServerFormat_def
  AList.update.simps

lemmas object_defs = objectAssign_def isArrayIndex_def isDigit_def decimal_def

lemmas ex_defs = bm_a_def bm_a2_def bm_b_def bm_proto_def env_up_def env_offline_def sys_fresh_def
  sys_synced_def sys_pending_def sys_busy_def

lemma ex_env:
  "\<not> fault env_up n" "onLine env_up n" "clock env_up n = 5000 + int n"
  "\<not> fault env_offline n" "\<not> onLine env_offline n"
  by (simp_all add: ex_defs)

lemma ex_sys:
  "calls sys_fresh = []" "calls sys_synced = []" "calls sys_pending = []" "calls sys_busy = []"
  "\<not> isSyncing sys_fresh" "\<not> isSyncing sys_synced" "\<not> isSyncing sys_pending"
  "isSyncing sys_busy"
  "lastSyncVersion sys_fresh = None" "lastSyncVersion sys_synced = Some 4000"
  "lastSyncVersion sys_pending = Some 4000" "lastSyncVersion sys_busy = Some 4000"
  "tempQueue sys_fresh = []" "tempQueue sys_synced = []" "tempQueue sys_pending = []"
  "tempQueue sys_busy = []"
  by (simp_all add: ex_defs)

section \<open>Facts about the helpers\<close>

lemma map_of_assignAll: "map_of (assignAll t es) = map_of t ++ map_of (rev es)"
proof (induction es arbitrary: t)
  case Nil
  show ?case by simp
next
  case (Cons p es)
  obtain u c where p: "p = (u, c)" by (cases p)
  show ?case
    by (simp add: p Cons.IH AList.update_conv' fun_eq_iff map_add_def split: option.splits)
qed

lemma distinct_assignAll:
  "distinct (map fst t) \<Longrightarrow> distinct (map fst (assignAll t es))"
  by (induction t es rule: assignAll.induct) (simp_all add: AList.distinct_update)

lemma assignAll_fresh:
  "distinct (map fst es) \<Longrightarrow> fst ` set t \<inter> fst ` set es = {} \<Longrightarrow> assignAll t es = t @ es"
proof (induction t es rule: assignAll.induct)
  case (1 t)
  show ?case by simp
next
  case (2 t u c es)
  have "AList.update u c t = t @ [(u, c)]"
    using 2(3) by (induction t) auto
  with 2 show ?case by auto
qed

text \<open>Setting the entries of a \<open>Map\<close> in an empty \<open>Map\<close> gives these entries, in their order.\<close>

lemma assignAll_empty_distinct: "distinct (map fst q) \<Longrightarrow> assignAll [] q = q"
  using assignAll_fresh[of q "[]"] by simp

text \<open>Assignment to a plain object, key by key.\<close>

lemma map_of_insertIndexKey:
  "u \<notin> set (map fst obj) \<Longrightarrow> map_of (insertIndexKey u c obj) = (map_of obj)(u \<mapsto> c)"
proof (induction obj)
  case Nil
  show ?case by simp
next
  case (Cons p ps)
  then have ne: "fst p \<noteq> u" and IH: "map_of (insertIndexKey u c ps) = (map_of ps)(u \<mapsto> c)"
    by auto
  show ?case
    using ne by (cases p) (auto simp add: IH fun_upd_twist)
qed

lemma keys_insertIndexKey:
  "set (map fst (insertIndexKey u c obj)) = insert u (set (map fst obj))"
  by (induction obj) auto

lemma distinct_insertIndexKey:
  "u \<notin> set (map fst obj) \<Longrightarrow> distinct (map fst obj) \<Longrightarrow>
   distinct (map fst (insertIndexKey u c obj))"
proof (induction obj)
  case Nil
  show ?case by simp
next
  case (Cons p ps)
  then have "fst p \<notin> set (map fst (insertIndexKey u c ps))"
    by (simp only: keys_insertIndexKey) auto
  with Cons show ?case by auto
qed

lemma map_of_append_fresh:
  "u \<notin> set (map fst obj) \<Longrightarrow> map_of (obj @ [(u, c)]) = (map_of obj)(u \<mapsto> c)"
proof (induction obj)
  case Nil
  show ?case by simp
next
  case (Cons p ps)
  then have ne: "fst p \<noteq> u" and IH: "map_of (ps @ [(u, c)]) = (map_of ps)(u \<mapsto> c)"
    by auto
  have "map_of ((p # ps) @ [(u, c)]) = (map_of (ps @ [(u, c)]))(fst p \<mapsto> snd p)"
    by (cases p) simp
  also have "\<dots> = ((map_of ps)(fst p \<mapsto> snd p))(u \<mapsto> c)"
    by (simp only: IH fun_upd_twist[OF ne[symmetric]])
  also have "(map_of ps)(fst p \<mapsto> snd p) = map_of (p # ps)"
    by (cases p) simp
  finally show ?case .
qed

lemma map_of_objectAssign_stored:
  assumes "u \<noteq> ''__proto__'' \<or> u \<in> set (map fst obj)"
  shows "map_of (objectAssign u c obj) = (map_of obj)(u \<mapsto> c)"
proof (cases "u \<in> set (map fst obj)")
  case True
  then have "objectAssign u c obj = AList.update u c obj" by (simp only: objectAssign_def if_True)
  then show ?thesis by (simp only: AList.update_conv')
next
  case False
  with assms have np: "u \<noteq> ''__proto__''" by blast
  show ?thesis
  proof (cases "isArrayIndex u")
    case True
    with False np have "objectAssign u c obj = insertIndexKey u c obj"
      by (simp only: objectAssign_def if_False if_True)
    then show ?thesis by (simp only: map_of_insertIndexKey[OF False])
  next
    case idx: False
    with False np have "objectAssign u c obj = obj @ [(u, c)]"
      by (simp only: objectAssign_def if_False)
    then show ?thesis by (simp only: map_of_append_fresh[OF False])
  qed
qed

lemma map_of_objectAssign:
  "u \<noteq> ''__proto__'' \<Longrightarrow> map_of (objectAssign u c obj) = (map_of obj)(u \<mapsto> c)"
  by (rule map_of_objectAssign_stored) simp

lemma objectAssign_proto:
  "''__proto__'' \<notin> set (map fst obj) \<Longrightarrow> objectAssign ''__proto__'' c obj = obj"
  by (simp add: objectAssign_def)

lemma map_of_objectAssign_other:
  assumes "k \<noteq> u"
  shows "map_of (objectAssign u c obj) k = map_of obj k"
proof (cases "u \<noteq> ''__proto__'' \<or> u \<in> set (map fst obj)")
  case True
  from map_of_objectAssign_stored[OF True] assms show ?thesis by simp
next
  case False
  then have "objectAssign u c obj = obj" by (simp add: objectAssign_def)
  then show ?thesis by simp
qed

lemma distinct_objectAssign:
  "distinct (map fst obj) \<Longrightarrow> distinct (map fst (objectAssign u c obj))"
  by (simp add: objectAssign_def AList.distinct_update distinct_insertIndexKey)

lemma map_of_objectAssignAll:
  "''__proto__'' \<notin> fst ` set es \<Longrightarrow>
   map_of (objectAssignAll t es) = map_of t ++ map_of (rev es)"
proof (induction es arbitrary: t)
  case Nil
  show ?case by simp
next
  case (Cons p es)
  obtain u c where p: "p = (u, c)" by (cases p)
  from Cons.prems have u: "u \<noteq> ''__proto__''" and es: "''__proto__'' \<notin> fst ` set es"
    by (auto simp: p)
  show ?case
    by (simp add: p Cons.IH[OF es] map_of_objectAssign[OF u] fun_eq_iff map_add_def
        split: option.splits)
qed

lemma frame_objectAssignAll:
  "k \<notin> fst ` set es \<Longrightarrow> map_of (objectAssignAll t es) k = map_of t k"
proof (induction es arbitrary: t)
  case Nil
  show ?case by simp
next
  case (Cons p es)
  obtain u c where p: "p = (u, c)" by (cases p)
  from Cons.prems have u: "k \<noteq> u" and es: "k \<notin> fst ` set es" by (auto simp: p)
  show ?case by (simp add: p Cons.IH[OF es] map_of_objectAssign_other[OF u])
qed

lemma distinct_objectAssignAll:
  "distinct (map fst t) \<Longrightarrow> distinct (map fst (objectAssignAll t es))"
  by (induction t es rule: objectAssignAll.induct) (simp_all add: distinct_objectAssign)

text \<open>
  The order of the keys and the key \<open>__proto__\<close> on an example: \<open>b\<close>, \<open>10\<close>, \<open>2\<close>, \<open>a\<close>,
  \<open>__proto__\<close>, \<open>b\<close> again and \<open>01\<close> assigned to \<open>{}\<close> in this order.
\<close>

lemma objectAssignAll_example:
  "objectAssignAll []
     [(''b'', 1::nat), (''10'', 2), (''2'', 3), (''a'', 4), (''__proto__'', 5), (''b'', 6),
      (''01'', 7)] =
   [(''2'', 3), (''10'', 2), (''b'', 6), (''a'', 4), (''01'', 7)]"
  by (simp add: object_defs)

lemma toArray_passed: "toArray a = passed a"
  by (cases a) (simp_all add: passed_def)

lemma map_option_map_of:
  "map_option f (map_of xs k) = map_of (map (\<lambda>p. (fst p, f (snd p))) xs) k"
  by (induction xs) auto

lemma map_option_map_add:
  "map_option f ((m1 ++ m2) k) = ((map_option f \<circ> m1) ++ (map_option f \<circ> m2)) k"
  by (simp add: map_add_def split: option.splits)

lemma map_of_rev_last:
  "map_of (rev (map (\<lambda>b. (key b, f b)) bs)) k =
     (if k \<in> key ` set bs then Some (f (last (filter (\<lambda>b. key b = k) bs))) else None)"
  by (induction bs rule: rev_induct) auto

lemma distinct_single:
  "distinct (map fst al) \<Longrightarrow> map_of al k = Some e \<Longrightarrow>
   filter (\<lambda>p. fst p = k) al = [(k, e)]"
proof (induction al)
  case Nil
  then show ?case by simp
next
  case (Cons p al)
  show ?case
  proof (cases "fst p = k")
    case True
    with Cons.prems have "filter (\<lambda>p. fst p = k) al = []"
      by (fastforce simp: filter_empty_conv image_iff)
    with True Cons.prems show ?thesis by (cases p) simp
  next
    case False
    with Cons show ?thesis by auto
  qed
qed

lemma changeEntries_state:
  "snd (changeEntries env d bs w) = w\<lparr>calls := calls w @ replicate (length bs) DateNow\<rparr>"
proof (induction bs arbitrary: w)
  case Nil
  show ?case by simp
next
  case (Cons b bs)
  show ?case
    by (simp add: dateNow_def split_beta Cons.IH replicate_append_same)
qed

lemma changeEntries_payloads:
  "map (\<lambda>p. (fst p, change (snd p))) (fst (changeEntries env d bs w)) =
   map (\<lambda>b. (bm_url b, convertToServerFormat b)) bs"
  by (induction bs arbitrary: w) (simp_all add: dateNow_def split_beta)

lemma changeEntries_keys:
  "map fst (fst (changeEntries env d bs w)) = map bm_url bs"
  by (induction bs arbitrary: w) (simp_all add: dateNow_def split_beta)

lemma changeEntries_flag: "changeEntries env d bs w = changeEntries env False bs w"
  by (induction bs arbitrary: w) (simp_all add: dateNow_def split_beta)

lemma payload_objectAssignAll:
  assumes "''__proto__'' \<notin> bm_url ` set bs"
  shows "map_option change \<circ> map_of (objectAssignAll t (fst (changeEntries env d bs w))) =
   (map_option change \<circ> map_of t) ++
     map_of (rev (map (\<lambda>b. (bm_url b, convertToServerFormat b)) bs))"
proof -
  let ?es = "fst (changeEntries env d bs w)"
  have keys: "''__proto__'' \<notin> fst ` set ?es"
    using assms changeEntries_keys[of env d bs w] by (metis set_map)
  have "map_option change \<circ> map_of (rev ?es) =
        map_of (map (\<lambda>p. (fst p, change (snd p))) (rev ?es))"
    by (simp add: fun_eq_iff map_option_map_of)
  also have "\<dots> = map_of (rev (map (\<lambda>b. (bm_url b, convertToServerFormat b)) bs))"
    by (simp add: rev_map[symmetric] changeEntries_payloads)
  finally have e: "map_option change \<circ> map_of (rev ?es) =
      map_of (rev (map (\<lambda>b. (bm_url b, convertToServerFormat b)) bs))" .
  have "map_option change \<circ> map_of (objectAssignAll t ?es) =
        (map_option change \<circ> map_of t) ++ (map_option change \<circ> map_of (rev ?es))"
    by (simp add: map_of_objectAssignAll[OF keys] fun_eq_iff map_option_map_add)
  then show ?thesis by (simp only: e)
qed

lemma frame_changeEntries:
  "k \<notin> bm_url ` set bs \<Longrightarrow>
   map_of (objectAssignAll t (fst (changeEntries env d bs w))) k = map_of t k"
proof -
  assume "k \<notin> bm_url ` set bs"
  then have "k \<notin> fst ` set (fst (changeEntries env d bs w))"
    using changeEntries_keys[of env d bs w] by (metis set_map)
  then show ?thesis by (rule frame_objectAssignAll)
qed

section \<open>Facts about single calls\<close>

lemma getSyncVersion_ok:
  "\<not> fault env (length (calls w)) \<Longrightarrow>
   getSyncVersion env w =
     (Inr (case lastSyncVersion w of None \<Rightarrow> 0 | Some v \<Rightarrow> v),
      w\<lparr>calls := calls w @ [StorageGet ''lastSyncVersion'']\<rparr>)"
  by (simp add: getSyncVersion_def storage_defs)

lemma getSyncVersion_fault:
  "fault env (length (calls w)) \<Longrightarrow>
   getSyncVersion env w =
     (Inl StorageFailure, w\<lparr>calls := calls w @ [StorageGet ''lastSyncVersion'']\<rparr>)"
  by (simp add: getSyncVersion_def storage_defs)

lemma addChange_syncing:
  assumes "isSyncing w"
  shows "addChange env bs d w =
    (Inr (), w\<lparr>calls := calls w @ replicate (length (toArray bs)) DateNow,
               tempQueue := assignAll (tempQueue w) (fst (changeEntries env d (toArray bs) w))\<rparr>)"
proof (cases "toArray bs = []")
  case True
  then show ?thesis by (simp add: addChange_def)
next
  case False
  obtain es w1 where ce: "changeEntries env d (toArray bs) w = (es, w1)" by fastforce
  have w1: "w1 = w\<lparr>calls := calls w @ replicate (length (toArray bs)) DateNow\<rparr>"
    using changeEntries_state[of env d "toArray bs" w] ce by simp
  show ?thesis using False assms
    by (simp add: addChange_def ce w1)
qed

lemma addChange_idle:
  assumes "\<not> isSyncing w" "\<forall>n. \<not> fault env n" "toArray bs \<noteq> []"
  shows "addChange env bs d w =
    (Inr (), w\<lparr>calls := calls w @ replicate (length (toArray bs)) DateNow
                  @ [StorageGet ''pendingChanges'', StorageSet ''pendingChanges''],
               pendingChanges :=
                 Some (objectAssignAll (durable w)
                         (fst (changeEntries env d (toArray bs) w)))\<rparr>)"
proof -
  obtain es w1 where ce: "changeEntries env d (toArray bs) w = (es, w1)" by fastforce
  have w1: "w1 = w\<lparr>calls := calls w @ replicate (length (toArray bs)) DateNow\<rparr>"
    using changeEntries_state[of env d "toArray bs" w] ce by simp
  show ?thesis using assms
    by (simp add: addChange_def ce w1 getPendingChanges_def storage_defs durable_def)
qed

lemma addChanges_idle:
  assumes "\<not> isSyncing w" "\<forall>n. \<not> fault env n"
  shows "fst (addChanges env rs w) = Inr () \<and>
         \<not> isSyncing (snd (addChanges env rs w)) \<and>
         tempQueue (snd (addChanges env rs w)) = tempQueue w \<and>
         (distinct (map fst (durable w)) \<longrightarrow>
            distinct (map fst (durable (snd (addChanges env rs w))))) \<and>
         (\<forall>k. k \<notin> bm_url ` set (mentioned rs) \<longrightarrow>
            map_of (durable (snd (addChanges env rs w))) k = map_of (durable w) k) \<and>
         (''__proto__'' \<notin> bm_url ` set (mentioned rs) \<longrightarrow>
          map_option change \<circ> map_of (durable (snd (addChanges env rs w))) =
           (map_option change \<circ> map_of (durable w)) ++
             map_of (rev (map (\<lambda>b. (bm_url b, convertToServerFormat b)) (mentioned rs))))"
  using assms(1)
proof (induction rs arbitrary: w)
  case Nil
  then show ?case by (simp add: mentioned_def)
next
  case (Cons r rs)
  obtain bs d where r: "r = (bs, d)" by (cases r)
  have tp: "toArray bs = passed bs" by (rule toArray_passed)
  have m: "mentioned (r # rs) = passed bs @ mentioned rs" by (simp add: mentioned_def r)
  show ?case
  proof (cases "passed bs = []")
    case True
    then have "addChange env bs d w = (Inr (), w)" by (simp add: addChange_def tp)
    then have "addChanges env (r # rs) w = addChanges env rs w" by (simp add: r andThen_def)
    moreover have "mentioned (r # rs) = mentioned rs" using True by (simp add: m)
    ultimately show ?thesis using Cons.IH[OF Cons.prems] by simp
  next
    case False
    then have ne: "toArray bs \<noteq> []" by (simp add: tp)
    define w1 where "w1 = snd (addChange env bs d w)"
    note eq = addChange_idle[OF Cons.prems assms(2) ne, of d]
    have step: "addChange env bs d w = (Inr (), w1)" by (simp add: eq w1_def)
    have idle1: "\<not> isSyncing w1" by (simp add: eq w1_def Cons.prems)
    have tq1: "tempQueue w1 = tempQueue w" by (simp add: eq w1_def)
    have d1: "durable w1 =
        objectAssignAll (durable w) (fst (changeEntries env d (passed bs) w))"
      by (simp add: eq w1_def durable_def tp)
    have run: "addChanges env (r # rs) w = addChanges env rs w1"
      using step by (simp add: r andThen_def)
    note IH = Cons.IH[OF idle1]
    have c1: "fst (addChanges env (r # rs) w) = Inr ()"
      and c2: "\<not> isSyncing (snd (addChanges env (r # rs) w))"
      and c3: "tempQueue (snd (addChanges env (r # rs) w)) = tempQueue w"
      using IH unfolding run tq1[symmetric] by blast+
    have c4: "distinct (map fst (durable w)) \<longrightarrow>
        distinct (map fst (durable (snd (addChanges env (r # rs) w))))"
      using IH by (simp add: run d1 distinct_objectAssignAll)
    have c5: "\<forall>k. k \<notin> bm_url ` set (mentioned (r # rs)) \<longrightarrow>
        map_of (durable (snd (addChanges env (r # rs) w))) k = map_of (durable w) k"
    proof (intro allI impI)
      fix k
      assume k: "k \<notin> bm_url ` set (mentioned (r # rs))"
      then have k1: "k \<notin> bm_url ` set (passed bs)" and k2: "k \<notin> bm_url ` set (mentioned rs)"
        by (auto simp: m)
      have "map_of (durable (snd (addChanges env rs w1))) k = map_of (durable w1) k"
        using IH k2 by blast
      also have "\<dots> = map_of (durable w) k"
        by (simp only: d1 frame_changeEntries[OF k1])
      finally show "map_of (durable (snd (addChanges env (r # rs) w))) k = map_of (durable w) k"
        by (simp only: run)
    qed
    have c6: "''__proto__'' \<notin> bm_url ` set (mentioned (r # rs)) \<longrightarrow>
          map_option change \<circ> map_of (durable (snd (addChanges env (r # rs) w))) =
          (map_option change \<circ> map_of (durable w)) ++
             map_of (rev (map (\<lambda>b. (bm_url b, convertToServerFormat b)) (mentioned (r # rs))))"
    proof
      assume np: "''__proto__'' \<notin> bm_url ` set (mentioned (r # rs))"
      then have p1: "''__proto__'' \<notin> bm_url ` set (passed bs)"
        and p2: "''__proto__'' \<notin> bm_url ` set (mentioned rs)"
        by (auto simp: m)
      have pay: "map_option change \<circ> map_of (durable w1) =
           (map_option change \<circ> map_of (durable w)) ++
             map_of (rev (map (\<lambda>b. (bm_url b, convertToServerFormat b)) (passed bs)))"
        by (simp only: d1 payload_objectAssignAll[OF p1])
      have "map_option change \<circ> map_of (durable (snd (addChanges env (r # rs) w))) =
          (map_option change \<circ> map_of (durable w1)) ++
             map_of (rev (map (\<lambda>b. (bm_url b, convertToServerFormat b)) (mentioned rs)))"
        using IH p2 unfolding run by blast
      then show "map_option change \<circ> map_of (durable (snd (addChanges env (r # rs) w))) =
          (map_option change \<circ> map_of (durable w)) ++
             map_of (rev (map (\<lambda>b. (bm_url b, convertToServerFormat b)) (mentioned (r # rs))))"
        by (simp only: pay m map_append rev_append map_of_append map_add_assoc)
    qed
    show ?thesis using c1 c2 c3 c4 c5 c6 by blast
  qed
qed

lemma syncAllLocalBookmarks_success:
  assumes "\<not> isSyncing w" and "onLine env (length (calls w))"
    and "\<not> fault env (length (calls w) + 2)" and "\<not> fault env (length (calls w) + 3)"
    and "\<not> fault env (length (calls w) + 5)"
  shows "syncAllLocalBookmarks env w =
     (Inr \<lparr>lastSync = clock env (length (calls w) + 1), lastSyncResult = ''success''\<rparr>,
      w\<lparr>lastSyncVersion := Some (clock env (length (calls w) + 4)),
        calls := calls w @ [NavigatorOnLine, DateNow, GetBookmarks,
                            StorageGet ''lastSyncVersion'', DateNow,
                            StorageSet ''lastSyncVersion'']\<rparr>)"
  using assms by (simp add: sync_defs storage_defs eval_nat_numeral)

lemma syncAllLocalBookmarks_success_only:
  assumes "syncAllLocalBookmarks env w = (Inr res, w')"
  shows "\<not> isSyncing w \<and> onLine env (length (calls w)) \<and>
         \<not> fault env (length (calls w) + 2) \<and> \<not> fault env (length (calls w) + 3) \<and>
         \<not> fault env (length (calls w) + 5)"
  using assms by (simp add: sync_defs storage_defs eval_nat_numeral split: if_splits)

text \<open>
  The \<open>finally\<close> block of \<open>syncChange\<close>, from any state the \<open>try\<close> block can leave: the
  queue is written to the store in place of the stored set, and emptied; the \<open>try\<close> block
  itself never touches the queue.
\<close>

lemma syncChange_finally_flushes:
  assumes "tempQueue w = [] \<or> \<not> fault env (length (calls w))"
  shows "fst (syncChange_finally env w) = Inr () \<and>
         \<not> isSyncing (snd (syncChange_finally env w)) \<and>
         tempQueue (snd (syncChange_finally env w)) = [] \<and>
         pendingChanges (snd (syncChange_finally env w)) =
           (if tempQueue w = [] then pendingChanges w else Some (objectAssignAll [] (tempQueue w)))"
  using assms by (auto simp add: sync_defs storage_defs)

lemma syncChange_try_keeps_queue:
  "tempQueue (snd (syncChange_try env w)) = tempQueue w"
  by (simp add: sync_defs storage_defs)

text \<open>The \<open>finally\<close> block of \<open>syncAllLocalBookmarks\<close> resets the flag and nothing else.\<close>

lemma syncAllLocalBookmarks_finally_keeps_queue:
  "syncAllLocalBookmarks_finally env w = (Inr (), w\<lparr>isSyncing := False\<rparr>)"
  by (simp add: syncAllLocalBookmarks_finally_def)

text \<open>No exit of \<open>syncAllLocalBookmarks\<close> changes the queue or the stored set.\<close>

lemma syncAllLocalBookmarks_keeps_queue:
  "tempQueue (snd (syncAllLocalBookmarks env w)) = tempQueue w \<and>
   pendingChanges (snd (syncAllLocalBookmarks env w)) = pendingChanges w"
  by (simp add: sync_defs storage_defs)

lemma incremental_exit_flushes_example:
  "fst (syncChange_during env_up (Single bm_a) False sys_synced) =
     Inr \<lparr>lastSync = 5003, lastSyncResult = ''success''\<rparr> \<and>
   \<not> isSyncing (snd (syncChange_during env_up (Single bm_a) False sys_synced)) \<and>
   tempQueue (snd (syncChange_during env_up (Single bm_a) False sys_synced)) = [] \<and>
   pendingChanges (snd (syncChange_during env_up (Single bm_a) False sys_synced)) =
     Some [(''https://example.com/'', \<lparr>timestamp = 5002, change = convertToServerFormat bm_a\<rparr>)]"
  by (simp add: syncChange_during_def sync_defs storage_defs record_defs object_defs ex_defs)

text \<open>
  A sequence of \<open>addChange\<close> calls, each awaited before the next, made while \<open>isSyncing\<close>
  is false, on a store that answers every call and holds every key once, with no
  bookmark whose URL is \<open>__proto__\<close>: every call succeeds, the stored set still holds
  every key once, it holds exactly one entry for every URL the sequence passed, whose
  payload is the conversion of the last bookmark passed with that URL, and the entries
  of all other keys are as before.
\<close>

lemma addChanges_last_writer_wins:
  assumes "\<not> isSyncing w" and "\<forall>n. \<not> fault env n" and "distinct (map fst (durable w))"
    and "''__proto__'' \<notin> bm_url ` set (mentioned rs)"
  shows "fst (addChanges env rs w) = Inr () \<and>
    distinct (map fst (durable (snd (addChanges env rs w)))) \<and>
    (\<forall>k \<in> bm_url ` set (mentioned rs).
       \<exists>e. filter (\<lambda>p. fst p = k) (durable (snd (addChanges env rs w))) = [(k, e)] \<and>
           change e =
             convertToServerFormat (last (filter (\<lambda>b. bm_url b = k) (mentioned rs)))) \<and>
    (\<forall>k. k \<notin> bm_url ` set (mentioned rs) \<longrightarrow>
       map_of (durable (snd (addChanges env rs w))) k = map_of (durable w) k)"
proof -
  let ?d = "durable (snd (addChanges env rs w))"
  note run = addChanges_idle[OF assms(1) assms(2), of rs]
  have ok: "fst (addChanges env rs w) = Inr ()" using run by blast
  have dist: "distinct (map fst ?d)" using run assms(3) by blast
  have frame: "\<forall>k. k \<notin> bm_url ` set (mentioned rs) \<longrightarrow> map_of ?d k = map_of (durable w) k"
    using run by blast
  have pay: "map_option change \<circ> map_of ?d =
      (map_option change \<circ> map_of (durable w)) ++
        map_of (rev (map (\<lambda>b. (bm_url b, convertToServerFormat b)) (mentioned rs)))"
    using run assms(4) by blast
  have last: "\<exists>e. filter (\<lambda>p. fst p = k) ?d = [(k, e)] \<and>
           change e = convertToServerFormat (last (filter (\<lambda>b. bm_url b = k) (mentioned rs)))"
    if k: "k \<in> bm_url ` set (mentioned rs)" for k
  proof -
    let ?s = "convertToServerFormat (last (filter (\<lambda>b. bm_url b = k) (mentioned rs)))"
    have "map_of (rev (map (\<lambda>b. (bm_url b, convertToServerFormat b)) (mentioned rs))) k = Some ?s"
      using k by (simp only: map_of_rev_last if_True)
    then have "(map_option change \<circ> map_of ?d) k = Some ?s"
      by (simp only: pay map_add_Some_iff) simp
    then obtain e where e: "map_of ?d k = Some e" and c: "change e = ?s"
      by (auto simp: comp_def)
    from distinct_single[OF dist e] c show ?thesis by blast
  qed
  show ?thesis using ok dist last frame by blast
qed

lemma addChanges_last_writer_wins_example:
  "fst (addChanges env_up
          [(Single bm_b, True), (Single bm_a, False), (Array [], False), (Array [bm_a2], True)]
          sys_synced) = Inr () \<and>
   (\<exists>e. filter (\<lambda>p. fst p = ''https://isabelle.in.tum.de/'')
          (durable (snd (addChanges env_up
             [(Single bm_b, True), (Single bm_a, False), (Array [], False),
              (Array [bm_a2], True)] sys_synced))) = [(''https://isabelle.in.tum.de/'', e)] \<and>
        change e = convertToServerFormat bm_b) \<and>
   (\<exists>e. filter (\<lambda>p. fst p = ''https://example.com/'')
          (durable (snd (addChanges env_up
             [(Single bm_b, True), (Single bm_a, False), (Array [], False),
              (Array [bm_a2], True)] sys_synced))) = [(''https://example.com/'', e)] \<and>
        change e = convertToServerFormat bm_a2)"
proof -
  let ?rs = "[(Single bm_b, True), (Single bm_a, False), (Array [], False),
              (Array [bm_a2], True)]"
  have idle: "\<not> isSyncing sys_synced" by (simp add: ex_sys)
  have up: "\<forall>n. \<not> fault env_up n" by (simp add: ex_env)
  have once: "distinct (map fst (durable sys_synced))" by (simp add: durable_def ex_defs)
  have m: "mentioned ?rs = [bm_b, bm_a, bm_a2]" by (simp add: mentioned_def passed_def)
  have np: "''__proto__'' \<notin> bm_url ` set (mentioned ?rs)"
    by (simp only: m) (simp add: bm_a_def bm_a2_def bm_b_def)
  note t = addChanges_last_writer_wins[OF idle up once np]
  have ka: "''https://example.com/'' \<in> bm_url ` set (mentioned ?rs)"
    by (simp only: m) (simp add: bm_a_def)
  have kb: "''https://isabelle.in.tum.de/'' \<in> bm_url ` set (mentioned ?rs)"
    by (simp only: m) (simp add: bm_b_def)
  have la: "last (filter (\<lambda>b. bm_url b = ''https://example.com/'') (mentioned ?rs)) = bm_a2"
    by (simp only: m) (simp add: bm_a_def bm_a2_def bm_b_def)
  have lb: "last (filter (\<lambda>b. bm_url b = ''https://isabelle.in.tum.de/'') (mentioned ?rs)) = bm_b"
    by (simp only: m) (simp add: bm_a_def bm_a2_def bm_b_def)
  from t have all: "\<forall>k \<in> bm_url ` set (mentioned ?rs).
       \<exists>e. filter (\<lambda>p. fst p = k) (durable (snd (addChanges env_up ?rs sys_synced))) = [(k, e)] \<and>
           change e = convertToServerFormat (last (filter (\<lambda>b. bm_url b = k) (mentioned ?rs)))"
    by blast
  from bspec[OF all ka] have a: "\<exists>e. filter (\<lambda>p. fst p = ''https://example.com/'')
          (durable (snd (addChanges env_up ?rs sys_synced))) = [(''https://example.com/'', e)] \<and>
        change e = convertToServerFormat bm_a2"
    by (simp only: la)
  from bspec[OF all kb] have b: "\<exists>e. filter (\<lambda>p. fst p = ''https://isabelle.in.tum.de/'')
          (durable (snd (addChanges env_up ?rs sys_synced))) = [(''https://isabelle.in.tum.de/'', e)] \<and>
        change e = convertToServerFormat bm_b"
    by (simp only: lb)
  from t a b show ?thesis by blast
qed

text \<open>
  The same bookmark recorded while a pass runs is kept by the \<open>Map\<close>; the object that the
  \<open>finally\<close> block of \<open>syncChange\<close> builds from the \<open>Map\<close> loses it again.
\<close>

lemma proto_key_buffered_example:
  "tempQueue (snd (addChange env_up (Single bm_proto) False sys_busy)) =
     [(''__proto__'', \<lparr>timestamp = 5000, change = convertToServerFormat bm_proto\<rparr>)] \<and>
   objectAssignAll [] (tempQueue (snd (addChange env_up (Single bm_proto) False sys_busy))) = []"
  by (simp add: record_defs storage_defs object_defs ex_defs)

section \<open>Properties\<close>

text \<open>
  C1. The claim: every pass, full or incremental, leaves the overflow buffer empty on
  every exit, with the buffer's entries written to the store. The full pass does not:
  its \<open>finally\<close> block only resets \<open>isSyncing\<close>. Here the version is 4000, a full pass
  is started, a change to one bookmark is recorded while the pass is suspended, and the
  pass succeeds: at its exit the buffer still holds the change and the store does not.
\<close>

theorem full_sync_exit_keeps_overflow:
  "fst (syncAllLocalBookmarks_during env_up (Single bm_a) False sys_synced) =
     Inr \<lparr>lastSync = 5003, lastSyncResult = ''success''\<rparr> \<and>
   \<not> isSyncing (snd (syncAllLocalBookmarks_during env_up (Single bm_a) False sys_synced)) \<and>
   tempQueue (snd (syncAllLocalBookmarks_during env_up (Single bm_a) False sys_synced)) =
     [(''https://example.com/'', \<lparr>timestamp = 5002, change = convertToServerFormat bm_a\<rparr>)] \<and>
   pendingChanges (snd (syncAllLocalBookmarks_during env_up (Single bm_a) False sys_synced)) =
     None"
  by (simp add: syncAllLocalBookmarks_during_def sync_defs storage_defs record_defs ex_defs)

text \<open>
  C2. While \<open>isSyncing\<close> is true, \<open>syncChange\<close> and \<open>syncAllLocalBookmarks\<close> fail with
  \<open>AlreadySyncing\<close> and leave the state as it was. \<open>startSync\<close> reads the version first:
  when the store answers that read it fails with \<open>AlreadySyncing\<close>, and in every case it
  leaves \<open>isSyncing\<close>, the stored version, the stored set and the buffer as they were.
\<close>

theorem already_syncing_rejected:
  assumes "isSyncing w"
  shows "syncChange env w = (Inl AlreadySyncing, w) \<and>
         syncAllLocalBookmarks env w = (Inl AlreadySyncing, w) \<and>
         (\<not> fault env (length (calls w)) \<longrightarrow>
            fst (startSync env w) = Inl AlreadySyncing) \<and>
         isSyncing (snd (startSync env w)) \<and>
         lastSyncVersion (snd (startSync env w)) = lastSyncVersion w \<and>
         pendingChanges (snd (startSync env w)) = pendingChanges w \<and>
         tempQueue (snd (startSync env w)) = tempQueue w"
  using assms by (simp add: sync_defs storage_defs)

theorem already_syncing_rejected_witness:
  "isSyncing sys_busy \<and>
   syncChange env_up sys_busy = (Inl AlreadySyncing, sys_busy) \<and>
   syncAllLocalBookmarks env_up sys_busy = (Inl AlreadySyncing, sys_busy) \<and>
   fst (startSync env_up sys_busy) = Inl AlreadySyncing \<and>
   isSyncing (snd (startSync env_up sys_busy)) \<and>
   lastSyncVersion (snd (startSync env_up sys_busy)) = Some 4000 \<and>
   pendingChanges (snd (startSync env_up sys_busy)) = pendingChanges sys_busy"
proof -
  have busy: "isSyncing sys_busy" by (simp add: ex_sys)
  show ?thesis
    using already_syncing_rejected[OF busy, of env_up] by (simp add: ex_env ex_sys)
qed

text \<open>
  C3. A call of \<open>addChange\<close> while \<open>isSyncing\<close> is true succeeds, makes no storage call
  (it only reads the clock, once per bookmark) and leaves the stored set and the stored
  version as they were. Its entries, keyed by the bookmarks' URLs, go to \<open>tempQueue\<close>,
  where for every key the last entry written wins and the other keys keep their entries.
\<close>

theorem addChange_while_syncing:
  assumes "isSyncing w"
  shows "fst (addChange env bs d w) = Inr () \<and>
         pendingChanges (snd (addChange env bs d w)) = pendingChanges w \<and>
         lastSyncVersion (snd (addChange env bs d w)) = lastSyncVersion w \<and>
         calls (snd (addChange env bs d w)) =
           calls w @ replicate (length (toArray bs)) DateNow \<and>
         tempQueue (snd (addChange env bs d w)) =
           assignAll (tempQueue w) (fst (changeEntries env d (toArray bs) w)) \<and>
         map fst (fst (changeEntries env d (toArray bs) w)) = map bm_url (toArray bs) \<and>
         map_of (tempQueue (snd (addChange env bs d w))) =
           map_of (tempQueue w) ++ map_of (rev (fst (changeEntries env d (toArray bs) w)))"
  by (simp add: addChange_syncing[OF assms] changeEntries_keys map_of_assignAll)

theorem addChange_while_syncing_witness:
  "isSyncing sys_busy \<and>
   fst (addChange env_up (Array [bm_a, bm_a2]) True sys_busy) = Inr () \<and>
   pendingChanges (snd (addChange env_up (Array [bm_a, bm_a2]) True sys_busy)) =
     pendingChanges sys_busy \<and>
   tempQueue (snd (addChange env_up (Array [bm_a, bm_a2]) True sys_busy)) =
     [(''https://example.com/'', \<lparr>timestamp = 5001, change = convertToServerFormat bm_a2\<rparr>)]"
proof -
  have busy: "isSyncing sys_busy" by (simp add: ex_sys)
  note t = addChange_while_syncing[OF busy, of env_up "Array [bm_a, bm_a2]" True]
  have e: "fst (changeEntries env_up True (toArray (Array [bm_a, bm_a2])) sys_busy) =
      [(''https://example.com/'', \<lparr>timestamp = 5000, change = convertToServerFormat bm_a\<rparr>),
       (''https://example.com/'', \<lparr>timestamp = 5001, change = convertToServerFormat bm_a2\<rparr>)]"
    by (simp add: dateNow_def ex_env ex_sys) (simp add: bm_a_def bm_a2_def)
  have q: "tempQueue (snd (addChange env_up (Array [bm_a, bm_a2]) True sys_busy)) =
     [(''https://example.com/'', \<lparr>timestamp = 5001, change = convertToServerFormat bm_a2\<rparr>)]"
    using t by (simp only: e ex_sys) simp
  show ?thesis using busy t q by blast
qed

text \<open>
  C4. The claim: after any sequence of \<open>addChange\<close> calls made while \<open>isSyncing\<close> is
  false, the stored set holds exactly one change for every URL that appeared, the last
  one. The code keeps the stored set in a plain object and writes \<open>changes[url] = change\<close>:
  for the URL \<open>__proto__\<close> this sets the object's prototype and stores nothing. Here a
  bookmark with the URL \<open>https://example.com/\<close> and one with the URL \<open>__proto__\<close> are
  recorded, one call after the other, on a store that answers: both calls succeed and
  write the store, the first URL has its entry, the second was passed and has none.
\<close>

theorem proto_key_change_not_stored:
  "addChanges env_up [(Single bm_a, False), (Single bm_proto, False)] sys_synced =
     (Inr (),
      sys_synced\<lparr>calls := [DateNow, StorageGet ''pendingChanges'', StorageSet ''pendingChanges'',
                          DateNow, StorageGet ''pendingChanges'', StorageSet ''pendingChanges''],
                 pendingChanges :=
                   Some [(''https://example.com/'',
                          \<lparr>timestamp = 5000, change = convertToServerFormat bm_a\<rparr>)]\<rparr>) \<and>
   ''__proto__'' \<in> bm_url ` set (mentioned [(Single bm_a, False), (Single bm_proto, False)]) \<and>
   filter (\<lambda>p. fst p = ''__proto__'')
     (durable (snd (addChanges env_up [(Single bm_a, False), (Single bm_proto, False)]
                      sys_synced))) = []"
  by (simp add: record_defs storage_defs getPendingChanges_def object_defs durable_def
      mentioned_def passed_def ex_defs)

text \<open>
  C5. Offline, from an idle state: \<open>syncAllLocalBookmarks\<close> fails with
  \<open>NetworkUnavailable\<close> and changes nothing; the \<open>try\<close> block of \<open>syncChange\<close> fails with
  \<open>NetworkUnavailable\<close> before any access to the store, so that at the throw the version
  and the stored set are untouched. The whole call of \<open>syncChange\<close> then fails with
  \<open>NetworkUnavailable\<close> too (provided the store answers the write of its \<open>finally\<close> block,
  made only when the overflow buffer is not empty), never writes the version, and writes
  the stored set only to put the buffer's entries there.
\<close>

theorem offline_fails:
  assumes "\<not> isSyncing w" and "\<not> onLine env (length (calls w))"
    and "tempQueue w = [] \<or> \<not> fault env (Suc (length (calls w)))"
  shows "syncAllLocalBookmarks env w =
           (Inl NetworkUnavailable, w\<lparr>calls := calls w @ [NavigatorOnLine]\<rparr>) \<and>
         syncChange_try env (w\<lparr>isSyncing := True\<rparr>) =
           (Inl NetworkUnavailable,
            w\<lparr>isSyncing := True, calls := calls w @ [NavigatorOnLine]\<rparr>) \<and>
         fst (syncChange env w) = Inl NetworkUnavailable \<and>
         lastSyncVersion (snd (syncChange env w)) = lastSyncVersion w \<and>
         pendingChanges (snd (syncChange env w)) =
           (if tempQueue w = [] then pendingChanges w else Some (objectAssignAll [] (tempQueue w)))"
  using assms by (auto simp add: sync_defs storage_defs)

theorem offline_fails_witness:
  "\<not> isSyncing sys_pending \<and> \<not> onLine env_offline (length (calls sys_pending)) \<and>
   syncAllLocalBookmarks env_offline sys_pending =
     (Inl NetworkUnavailable, sys_pending\<lparr>calls := [NavigatorOnLine]\<rparr>) \<and>
   fst (syncChange env_offline sys_pending) = Inl NetworkUnavailable \<and>
   lastSyncVersion (snd (syncChange env_offline sys_pending)) = Some 4000 \<and>
   pendingChanges (snd (syncChange env_offline sys_pending)) = pendingChanges sys_pending"
proof -
  have idle: "\<not> isSyncing sys_pending" by (simp add: ex_sys)
  have off: "\<not> onLine env_offline (length (calls sys_pending))" by (simp add: ex_env)
  have q: "tempQueue sys_pending = [] \<or> \<not> fault env_offline (Suc (length (calls sys_pending)))"
    by (simp add: ex_sys)
  show ?thesis
    using offline_fails[OF idle off q] idle off by (simp add: ex_sys)
qed

text \<open>
  C6. \<open>startSync\<close> reads the stored version. When the store answers, it is the full pass
  if the version is absent or \<open>0\<close>, and the incremental pass otherwise. In the first
  case, from an idle state, online and with a store that answers, the call succeeds; and
  whenever the call succeeds, the result says \<open>success\<close>, the bookmarks were read
  (\<open>GetBookmarks\<close> is among the calls made), the version is the value \<open>Date.now()\<close>
  returned, which is not \<open>0\<close> when the clock is not, \<open>isSyncing\<close> is false again, and the
  stored set and the overflow buffer are as before.
\<close>

theorem startSync_dispatch_and_first_sync:
  "(\<not> fault env (length (calls w)) \<longrightarrow>
      startSync env w =
        (if lastSyncVersion w = None \<or> lastSyncVersion w = Some 0
         then syncAllLocalBookmarks env (w\<lparr>calls := calls w @ [StorageGet ''lastSyncVersion'']\<rparr>)
         else syncChange env (w\<lparr>calls := calls w @ [StorageGet ''lastSyncVersion'']\<rparr>))) \<and>
   ((lastSyncVersion w = None \<or> lastSyncVersion w = Some 0) \<and> \<not> isSyncing w \<and>
    \<not> fault env (length (calls w)) \<and> onLine env (length (calls w) + 1) \<and>
    \<not> fault env (length (calls w) + 3) \<and> \<not> fault env (length (calls w) + 4) \<and>
    \<not> fault env (length (calls w) + 6) \<longrightarrow>
      fst (startSync env w) =
        Inr \<lparr>lastSync = clock env (length (calls w) + 2), lastSyncResult = ''success''\<rparr>) \<and>
   ((lastSyncVersion w = None \<or> lastSyncVersion w = Some 0) \<and>
    fst (startSync env w) = Inr res \<and> clock env (length (calls w) + 5) \<noteq> 0 \<longrightarrow>
      lastSyncResult res = ''success'' \<and>
      calls (snd (startSync env w)) =
        calls w @ [StorageGet ''lastSyncVersion'', NavigatorOnLine, DateNow, GetBookmarks,
                   StorageGet ''lastSyncVersion'', DateNow, StorageSet ''lastSyncVersion''] \<and>
      lastSyncVersion (snd (startSync env w)) = Some (clock env (length (calls w) + 5)) \<and>
      lastSyncVersion (snd (startSync env w)) \<noteq> Some 0 \<and>
      \<not> isSyncing (snd (startSync env w)) \<and>
      pendingChanges (snd (startSync env w)) = pendingChanges w \<and>
      tempQueue (snd (startSync env w)) = tempQueue w)"
proof -
  let ?n = "length (calls w)"
  let ?w1 = "w\<lparr>calls := calls w @ [StorageGet ''lastSyncVersion'']\<rparr>"
  let ?zero = "lastSyncVersion w = None \<or> lastSyncVersion w = Some 0"
  have dispatch: "startSync env w =
        (if ?zero then syncAllLocalBookmarks env ?w1 else syncChange env ?w1)"
    if "\<not> fault env ?n"
    using that
    by (cases "lastSyncVersion w") (simp_all add: startSync_def getSyncVersion_ok andThen_def)
  have exact: "startSync env w =
        (Inr \<lparr>lastSync = clock env (?n + 2), lastSyncResult = ''success''\<rparr>,
         w\<lparr>lastSyncVersion := Some (clock env (?n + 5)),
           calls := calls w @ [StorageGet ''lastSyncVersion'', NavigatorOnLine, DateNow,
                               GetBookmarks, StorageGet ''lastSyncVersion'', DateNow,
                               StorageSet ''lastSyncVersion'']\<rparr>)"
    if z: "?zero" and i: "\<not> isSyncing w" and f0: "\<not> fault env ?n"
      and on: "onLine env (?n + 1)" and f3: "\<not> fault env (?n + 3)"
      and f4: "\<not> fault env (?n + 4)" and f6: "\<not> fault env (?n + 6)"
  proof -
    have "syncAllLocalBookmarks env ?w1 =
     (Inr \<lparr>lastSync = clock env (length (calls ?w1) + 1), lastSyncResult = ''success''\<rparr>,
      ?w1\<lparr>lastSyncVersion := Some (clock env (length (calls ?w1) + 4)),
        calls := calls ?w1 @ [NavigatorOnLine, DateNow, GetBookmarks,
                            StorageGet ''lastSyncVersion'', DateNow,
                            StorageSet ''lastSyncVersion'']\<rparr>)"
      by (rule syncAllLocalBookmarks_success)
        (use i on f3 f4 f6 in \<open>simp_all add: eval_nat_numeral\<close>)
    then show ?thesis using z by (simp add: dispatch[OF f0] eval_nat_numeral)
  qed
  have only: "\<not> isSyncing w \<and> \<not> fault env ?n \<and> onLine env (?n + 1) \<and>
      \<not> fault env (?n + 3) \<and> \<not> fault env (?n + 4) \<and> \<not> fault env (?n + 6)"
    if z: "?zero" and ok: "fst (startSync env w) = Inr res"
  proof -
    have f0: "\<not> fault env ?n"
    proof
      assume "fault env ?n"
      then have "fst (startSync env w) = Inl StorageFailure"
        by (simp add: startSync_def getSyncVersion_fault andThen_def)
      with ok show False by simp
    qed
    have "syncAllLocalBookmarks env ?w1 = (Inr res, snd (startSync env w))"
      using dispatch[OF f0] z ok by (metis prod.collapse)
    from syncAllLocalBookmarks_success_only[OF this] f0 show ?thesis
      by (simp add: eval_nat_numeral)
  qed
  have part1: "\<not> fault env ?n \<longrightarrow> startSync env w =
        (if ?zero then syncAllLocalBookmarks env ?w1 else syncChange env ?w1)"
    using dispatch by blast
  have part2: "?zero \<and> \<not> isSyncing w \<and> \<not> fault env ?n \<and> onLine env (?n + 1) \<and>
      \<not> fault env (?n + 3) \<and> \<not> fault env (?n + 4) \<and> \<not> fault env (?n + 6) \<longrightarrow>
      fst (startSync env w) =
        Inr \<lparr>lastSync = clock env (?n + 2), lastSyncResult = ''success''\<rparr>"
    using exact by simp
  have part3: "?zero \<and> fst (startSync env w) = Inr res \<and> clock env (?n + 5) \<noteq> 0 \<longrightarrow>
      lastSyncResult res = ''success'' \<and>
      calls (snd (startSync env w)) =
        calls w @ [StorageGet ''lastSyncVersion'', NavigatorOnLine, DateNow, GetBookmarks,
                   StorageGet ''lastSyncVersion'', DateNow, StorageSet ''lastSyncVersion''] \<and>
      lastSyncVersion (snd (startSync env w)) = Some (clock env (?n + 5)) \<and>
      lastSyncVersion (snd (startSync env w)) \<noteq> Some 0 \<and>
      \<not> isSyncing (snd (startSync env w)) \<and>
      pendingChanges (snd (startSync env w)) = pendingChanges w \<and>
      tempQueue (snd (startSync env w)) = tempQueue w"
  proof (intro impI)
    assume a: "?zero \<and> fst (startSync env w) = Inr res \<and> clock env (?n + 5) \<noteq> 0"
    then have z: "?zero" and ok: "fst (startSync env w) = Inr res"
      and c: "clock env (?n + 5) \<noteq> 0" by blast+
    note o = only[OF z ok]
    have e: "startSync env w =
        (Inr \<lparr>lastSync = clock env (?n + 2), lastSyncResult = ''success''\<rparr>,
         w\<lparr>lastSyncVersion := Some (clock env (?n + 5)),
           calls := calls w @ [StorageGet ''lastSyncVersion'', NavigatorOnLine, DateNow,
                               GetBookmarks, StorageGet ''lastSyncVersion'', DateNow,
                               StorageSet ''lastSyncVersion'']\<rparr>)"
      using exact[OF z] o by blast
    have r: "res = \<lparr>lastSync = clock env (?n + 2), lastSyncResult = ''success''\<rparr>"
      using ok by (simp add: e)
    show "lastSyncResult res = ''success'' \<and>
      calls (snd (startSync env w)) =
        calls w @ [StorageGet ''lastSyncVersion'', NavigatorOnLine, DateNow, GetBookmarks,
                   StorageGet ''lastSyncVersion'', DateNow, StorageSet ''lastSyncVersion''] \<and>
      lastSyncVersion (snd (startSync env w)) = Some (clock env (?n + 5)) \<and>
      lastSyncVersion (snd (startSync env w)) \<noteq> Some 0 \<and>
      \<not> isSyncing (snd (startSync env w)) \<and>
      pendingChanges (snd (startSync env w)) = pendingChanges w \<and>
      tempQueue (snd (startSync env w)) = tempQueue w"
      using c o by (simp add: e r)
  qed
  show ?thesis using part1 part2 part3 by blast
qed

theorem startSync_dispatch_and_first_sync_witness:
  "lastSyncVersion sys_fresh = None \<and>
   startSync env_up sys_fresh =
     syncAllLocalBookmarks env_up (sys_fresh\<lparr>calls := [StorageGet ''lastSyncVersion'']\<rparr>) \<and>
   startSync env_up sys_synced =
     syncChange env_up (sys_synced\<lparr>calls := [StorageGet ''lastSyncVersion'']\<rparr>) \<and>
   fst (startSync env_up sys_fresh) = Inr \<lparr>lastSync = 5002, lastSyncResult = ''success''\<rparr> \<and>
   GetBookmarks \<in> set (calls (snd (startSync env_up sys_fresh))) \<and>
   lastSyncVersion (snd (startSync env_up sys_fresh)) = Some 5005 \<and>
   \<not> isSyncing (snd (startSync env_up sys_fresh))"
proof -
  note fresh = startSync_dispatch_and_first_sync
    [of env_up sys_fresh "\<lparr>lastSync = 5002, lastSyncResult = ''success''\<rparr>"]
  note synced = startSync_dispatch_and_first_sync [of env_up sys_synced]
  have 1: "lastSyncVersion sys_fresh = None" by (simp add: ex_sys)
  have 2: "startSync env_up sys_fresh =
     syncAllLocalBookmarks env_up (sys_fresh\<lparr>calls := [StorageGet ''lastSyncVersion'']\<rparr>)"
    using fresh[THEN conjunct1] by (simp add: ex_env ex_sys)
  have 3: "startSync env_up sys_synced =
     syncChange env_up (sys_synced\<lparr>calls := [StorageGet ''lastSyncVersion'']\<rparr>)"
    using synced[THEN conjunct1] by (simp add: ex_env ex_sys)
  have 4: "fst (startSync env_up sys_fresh) =
      Inr \<lparr>lastSync = 5002, lastSyncResult = ''success''\<rparr>"
    using fresh[THEN conjunct2, THEN conjunct1] by (simp add: ex_env ex_sys)
  have 5: "GetBookmarks \<in> set (calls (snd (startSync env_up sys_fresh))) \<and>
      lastSyncVersion (snd (startSync env_up sys_fresh)) = Some 5005 \<and>
      \<not> isSyncing (snd (startSync env_up sys_fresh))"
    using fresh[THEN conjunct2, THEN conjunct2] by (simp add: ex_env ex_sys 4)
  show ?thesis using 1 2 3 4 5 by blast
qed

text \<open>
  C7. When the stored version is absent or \<open>0\<close>, \<open>recordBookmarkChange\<close> reads the
  version and does nothing else, whatever the bookmarks and the flag: \<open>addChange\<close> is not
  called, the stored set and the overflow buffer are as before, and the call returns
  without error when the store answers the read.
\<close>

theorem never_synced_record_dropped:
  assumes "lastSyncVersion w = None \<or> lastSyncVersion w = Some 0"
  shows "recordBookmarkChange env bs d w =
           (if fault env (length (calls w)) then Inl StorageFailure else Inr (),
            w\<lparr>calls := calls w @ [StorageGet ''lastSyncVersion'']\<rparr>)"
  using assms by (auto simp add: recordBookmarkChange_def sync_defs storage_defs)

theorem never_synced_record_dropped_witness:
  "lastSyncVersion sys_fresh = None \<and>
   recordBookmarkChange env_up (Array [bm_a, bm_b]) True sys_fresh =
     (Inr (), sys_fresh\<lparr>calls := [StorageGet ''lastSyncVersion'']\<rparr>)"
proof -
  have z: "lastSyncVersion sys_fresh = None \<or> lastSyncVersion sys_fresh = Some 0"
    by (simp add: ex_sys)
  show ?thesis
    using never_synced_record_dropped[OF z, of env_up "Array [bm_a, bm_b]" True]
    by (simp add: ex_env ex_sys)
qed

text \<open>
  C8. The snapshot \<open>convertToServerFormat\<close> returns has \<open>deleted = false\<close> for every
  bookmark; so has every entry \<open>addChange\<close> builds, whatever \<open>isDeleted\<close> is; and
  \<open>addChange\<close> with any \<open>isDeleted\<close> does what it does with \<open>isDeleted = false\<close>.
\<close>

theorem deleted_flag_always_false:
  "deleted (convertToServerFormat b) = False \<and>
   map (\<lambda>e. deleted (change (snd e))) (fst (changeEntries env isDeleted bs w)) =
     replicate (length bs) False \<and>
   addChange env a isDeleted w = addChange env a False w"
proof -
  have 1: "deleted (convertToServerFormat b) = False"
    by (simp add: convertToServerFormat_def)
  have 2: "map (\<lambda>e. deleted (change (snd e))) (fst (changeEntries env isDeleted bs w)) =
     replicate (length bs) False"
    by (induction bs arbitrary: w)
      (simp_all add: dateNow_def split_beta convertToServerFormat_def)
  have 3: "addChange env a isDeleted w = addChange env a False w"
    by (simp add: addChange_def Let_def changeEntries_flag[of env isDeleted])
  show ?thesis using 1 2 3 by blast
qed

text \<open>
  C9. \<open>addChange\<close> with an empty array returns without error and leaves the whole
  state as it was (the stored set, the overflow buffer, and everything else), whether
  or not a pass is running.
\<close>

theorem addChange_empty_noop:
  "addChange env (Array []) isDeleted w = (Inr (), w)"
  by (simp add: addChange_def)

text \<open>
  C10. \<open>clearChanges\<close> called twice in a row, on a store that answers both writes:
  both calls return without error, after each the stored set is the empty object, and
  the overflow buffer, the version and \<open>isSyncing\<close> are as before.
\<close>

theorem clearChanges_idempotent:
  assumes "\<not> fault env (length (calls w))" and "\<not> fault env (Suc (length (calls w)))"
  shows "fst (clearChanges env w) = Inr () \<and>
         pendingChanges (snd (clearChanges env w)) = Some [] \<and>
         fst (clearChanges env (snd (clearChanges env w))) = Inr () \<and>
         pendingChanges (snd (clearChanges env (snd (clearChanges env w)))) = Some [] \<and>
         tempQueue (snd (clearChanges env (snd (clearChanges env w)))) = tempQueue w \<and>
         lastSyncVersion (snd (clearChanges env (snd (clearChanges env w)))) =
           lastSyncVersion w \<and>
         isSyncing (snd (clearChanges env (snd (clearChanges env w)))) = isSyncing w"
  using assms by (simp add: clearChanges_def storage_defs)

theorem clearChanges_idempotent_witness:
  "pendingChanges sys_pending \<noteq> Some [] \<and>
   fst (clearChanges env_up sys_pending) = Inr () \<and>
   pendingChanges (snd (clearChanges env_up sys_pending)) = Some [] \<and>
   fst (clearChanges env_up (snd (clearChanges env_up sys_pending))) = Inr () \<and>
   pendingChanges (snd (clearChanges env_up (snd (clearChanges env_up sys_pending)))) = Some []"
proof -
  have a: "\<not> fault env_up (length (calls sys_pending))"
    and b: "\<not> fault env_up (Suc (length (calls sys_pending)))"
    by (simp_all add: ex_env)
  have c: "pendingChanges sys_pending \<noteq> Some []" by (simp add: ex_defs)
  show ?thesis using clearChanges_idempotent[OF a b] c by blast
qed

end
